theory Spec2Isabelle
  imports Main "HOL-Library.Word"
begin

section \<open>WhisperTranscriber (src/index.ts): data model\<close>

text \<open>
  The class \<open>WhisperTranscriber\<close> is an event-driven object: its public methods are
  asynchronous, and the rest of its code runs in callbacks (script load, media-device
  request, recorder events, file reader, audio decoding, timers). The embedding is a
  deterministic transition system. Each method and each callback body is one HOL function
  on the state; an \<open>event\<close> names which of them runs next, together with the values the
  browser or the engine supplies at that point. Everything the code does to the outside
  (engine calls, browser API calls, observer callbacks) is appended to \<open>trace\<close>.

  Not modelled: console logging (\<open>log\<close>), the progress callback, and the two
  diagnostic string getters. Observer callbacks are assumed not to throw and not to call
  back into the controller. Browser constructors and the engine's functions are assumed
  not to throw. A media-device request settles once; the callbacks that \<open>loadRemote\<close>
  is given may be called any number of times. An event that cannot happen in the state it
  meets (a callback of a request that was never made) leaves the state as it is.
\<close>

type_synonym byte = "8 word"

datatype model_size = TinyEn | BaseEn | TinyEnQ5_1 | BaseEnQ5_1

fun MODEL_URLS :: "model_size \<Rightarrow> string" where
  "MODEL_URLS TinyEn = ''https://huggingface.co/ggerganov/whisper.cpp/resolve/main/ggml-tiny.en.bin''"
| "MODEL_URLS BaseEn = ''https://huggingface.co/ggerganov/whisper.cpp/resolve/main/ggml-base.en.bin''"
| "MODEL_URLS TinyEnQ5_1 = ''https://huggingface.co/ggerganov/whisper.cpp/resolve/main/ggml-tiny.en-q5_1.bin''"
| "MODEL_URLS BaseEnQ5_1 = ''https://huggingface.co/ggerganov/whisper.cpp/resolve/main/ggml-base.en-q5_1.bin''"

fun MODEL_SIZES :: "model_size \<Rightarrow> nat" where
  "MODEL_SIZES TinyEn = 75"
| "MODEL_SIZES BaseEn = 142"
| "MODEL_SIZES TinyEnQ5_1 = 31"
| "MODEL_SIZES BaseEnQ5_1 = 57"

text \<open>The caller's \<open>WhisperConfig\<close>: every field optional.\<close>

record WhisperConfig =
  modelUrl_opt :: "string option"
  modelSize_opt :: "model_size option"
  sampleRate_opt :: "nat option"
  audioIntervalMs_opt :: "nat option"

text \<open>\<open>Required<WhisperConfig>\<close>, as the constructor resolves it.\<close>

record config =
  modelUrl :: string
  modelSize :: model_size
  sampleRate :: nat
  audioIntervalMs :: nat

text \<open>JavaScript \<open>x || d\<close>: \<open>undefined\<close>, \<open>0\<close> and the empty string are falsy.\<close>

fun num_or :: "nat option \<Rightarrow> nat \<Rightarrow> nat" where
  "num_or None d = d"
| "num_or (Some n) d = (if n = 0 then d else n)"

fun str_or :: "string option \<Rightarrow> string \<Rightarrow> string" where
  "str_or None d = d"
| "str_or (Some u) d = (if u = [] then d else u)"

fun size_or :: "model_size option \<Rightarrow> model_size \<Rightarrow> model_size" where
  "size_or None d = d"
| "size_or (Some m) d = m"

definition resolve_config :: "WhisperConfig \<Rightarrow> config" where
  "resolve_config c =
     \<lparr> modelUrl = str_or (modelUrl_opt c) (MODEL_URLS (size_or (modelSize_opt c) BaseEnQ5_1)),
       modelSize = size_or (modelSize_opt c) BaseEnQ5_1,
       sampleRate = num_or (sampleRate_opt c) 16000,
       audioIntervalMs = num_or (audioIntervalMs_opt c) 5000 \<rparr>"

datatype error =
    ModelNotLoaded            \<comment> \<open>'Model not loaded. Call loadModel() first.'\<close>
  | EngineInitFailed          \<comment> \<open>'Failed to initialize Whisper'\<close>
  | TypeError                 \<comment> \<open>property access on \<open>this.Module\<close> while it is null\<close>
  | HelpersFailed             \<comment> \<open>'Failed to load helpers'\<close>
  | WasmFailed                \<comment> \<open>'Failed to load WASM module'\<close>
  | ModuleMissing             \<comment> \<open>'Module not available after runtime initialized'\<close>
  | Cancelled                 \<comment> \<open>'Model loading cancelled'\<close>
  | DeviceError string        \<comment> \<open>whatever \<open>getUserMedia\<close> rejects with; carries its message\<close>

text \<open>The state of a promise.\<close>

datatype outcome = Pending | Fulfilled | Rejected error

text \<open>The options object handed to \<open>new AudioContext\<close>.\<close>

record context_options =
  ctx_sampleRate :: nat
  channelCount :: nat
  echoCancellation :: bool
  autoGainControl :: bool
  noiseSuppression :: bool

text \<open>
  A member of the constraints object handed to \<open>getUserMedia\<close>: either a plain boolean
  or a set of track constraints.
\<close>

datatype track_request = Flag bool | Constrained context_options

text \<open>What the controller does to its collaborators, in order.\<close>

datatype 's effect =
    LoadCOIServiceWorker
  | LoadHelpers
  | LoadWasmModule
  | OnStatus string
  | OnTranscription string
  | LoadRemote string string nat          \<comment> \<open>url, file name, size hint\<close>
  | FS_unlink string
  | FS_createDataFile string "byte list"
  | EngineInit string nat                 \<comment> \<open>\<open>init(name)\<close> and the handle it returned\<close>
  | SetStatus string
  | SetAudio nat "'s list"
  | GetTranscribed
  | NewAudioContext nat context_options   \<comment> \<open>context id, options\<close>
  | CloseAudioContext nat
  | GetUserMedia track_request track_request  \<comment> \<open>audio, video\<close>
  | NewMediaRecorder nat
  | RecorderStart nat nat                 \<comment> \<open>recorder id, timeslice\<close>
  | RecorderStop nat
  | SetInterval nat nat                   \<comment> \<open>timer id, period in ms\<close>
  | ClearInterval nat
  | SetTimeout nat                        \<comment> \<open>delay in ms; the restart of \<open>onstop\<close>\<close>

text \<open>Where the body of the async function inside \<open>initialize\<close> is suspended.\<close>

datatype init_stage = NotStarted | AwaitCOI | AwaitHelpers | AwaitWasm | Finished

text \<open>
  One run of \<open>ondataavailable\<close>: the blob built from the chunks so far, and how far its
  reader/decoder chain has come.
\<close>

datatype job_stage = Reading | Decoding | Completed | Dropped

record job =
  blob :: "byte list"
  stage :: job_stage

datatype wasm_module = WasmModule

text \<open>
  The state. The first block is the private fields of the class, with their names; the
  second block is the environment the callbacks live in. \<open>decodeAudio\<close> stands for
  \<open>decodeAudioData\<close> followed by the offline rendering and \<open>getChannelData(0)\<close>: the
  code only copies the samples, so their type is left open.
\<close>

record 's system =
  config :: config
  instance' :: "nat option"
  mediaRecorder :: "nat option"
  audioContext :: "nat option"
  isRecording :: bool
  audio :: "'s list option"
  audio0 :: "'s list option"
  Module :: "wasm_module option"
  modelLoaded :: bool
  initPromise :: "nat option"

  trace :: "'s effect list"
  promises :: "outcome list"              \<comment> \<open>a promise is its index here\<close>
  initStage :: init_stage
  initWaiters :: "nat list"               \<comment> \<open>\<open>loadModel\<close> calls suspended at \<open>await this.initialize()\<close>\<close>
  loadRemotes :: "nat list"               \<comment> \<open>\<open>loadModel\<close> calls that have called \<open>loadRemote\<close>\<close>
  mediaReqs :: "nat list"                 \<comment> \<open>\<open>startRecording\<close> calls suspended at \<open>await getUserMedia\<close>\<close>
  contexts :: nat                         \<comment> \<open>audio contexts created so far\<close>
  recorders :: "byte list list list"      \<comment> \<open>per recorder, the \<open>chunks\<close> array of its call\<close>
  jobs :: "job list"
  timers :: "bool list"                   \<comment> \<open>per interval timer, whether it is still set\<close>
  restarts :: nat                         \<comment> \<open>\<open>setTimeout\<close> restarts not yet fired\<close>
  decodeAudio :: "byte list \<Rightarrow> 's list"

definition new :: "WhisperConfig \<Rightarrow> (byte list \<Rightarrow> 's list) \<Rightarrow> 's system" where
  "new c dec =
     \<lparr> config = resolve_config c, instance' = None, mediaRecorder = None,
       audioContext = None, isRecording = False, audio = None, audio0 = None,
       Module = None, modelLoaded = False, initPromise = None,
       trace = [], promises = [], initStage = NotStarted, initWaiters = [],
       loadRemotes = [], mediaReqs = [], contexts = 0, recorders = [], jobs = [],
       timers = [], restarts = 0, decodeAudio = dec \<rparr>"

text \<open>Settling a promise; a settled promise stays as it is.\<close>

definition settle :: "nat \<Rightarrow> outcome \<Rightarrow> outcome list \<Rightarrow> outcome list" where
  "settle p out ps = (if p < length ps \<and> ps ! p = Pending then ps[p := out] else ps)"

text \<open>JavaScript truthiness of \<open>this.instance\<close>: \<open>null\<close> and \<open>0\<close> are falsy.\<close>

fun truthy :: "nat option \<Rightarrow> bool" where
  "truthy None = False"
| "truthy (Some h) = (h \<noteq> 0)"

section \<open>Bring-up: \<open>initialize\<close> and its continuations\<close>

text \<open>
  \<open>initialize\<close> returns the promise in \<open>this.initPromise\<close> (the promise an async method
  returns adopts its state). With no memoized promise it starts the async body, which
  runs up to its first \<open>await\<close>, the call of \<open>loadCOIServiceWorker\<close>.
\<close>

definition initialize :: "'s system \<Rightarrow> nat \<times> 's system" where
  "initialize s =
     (case initPromise s of
        Some p \<Rightarrow> (p, s)
      | None \<Rightarrow>
          (length (promises s),
           s\<lparr> initPromise := Some (length (promises s)),
              promises := promises s @ [Pending],
              initStage := AwaitCOI,
              trace := trace s @ [LoadCOIServiceWorker] \<rparr>))"

text \<open>\<open>loadCOIServiceWorker\<close> always resolves; the body goes on to \<open>loadHelpers\<close>.\<close>

definition coiSettled :: "'s system \<Rightarrow> 's system" where
  "coiSettled s =
     (if initStage s = AwaitCOI
      then s\<lparr> initStage := AwaitHelpers, trace := trace s @ [LoadHelpers] \<rparr>
      else s)"

definition helpersLoaded :: "'s system \<Rightarrow> 's system" where
  "helpersLoaded s =
     (if initStage s = AwaitHelpers
      then s\<lparr> initStage := AwaitWasm, trace := trace s @ [LoadWasmModule] \<rparr>
      else s)"

text \<open>A rejection inside the body is logged and thrown again: the promise rejects.\<close>

definition initFailed :: "init_stage \<Rightarrow> error \<Rightarrow> 's system \<Rightarrow> 's system" where
  "initFailed st e s =
     (if initStage s = st
      then (case initPromise s of
              None \<Rightarrow> s
            | Some p \<Rightarrow> s\<lparr> initStage := Finished,
                           promises := settle p (Rejected e) (promises s) \<rparr>)
      else s)"

text \<open>
  The runtime is up: the timeout callback in \<open>onRuntimeInitialized\<close> stores the module and
  resolves; the body fires the status and the promise is fulfilled.
\<close>

definition wasmReady :: "'s system \<Rightarrow> 's system" where
  "wasmReady s =
     (if initStage s = AwaitWasm
      then (case initPromise s of
              None \<Rightarrow> s
            | Some p \<Rightarrow> s\<lparr> Module := Some WasmModule,
                           initStage := Finished,
                           promises := settle p Fulfilled (promises s),
                           trace := trace s @ [OnStatus ''Ready to load model''] \<rparr>)
      else s)"

section \<open>\<open>loadModel\<close>\<close>

definition loadModel :: "'s system \<Rightarrow> nat \<times> 's system" where
  "loadModel s =
     (if modelLoaded s
      then (length (promises s), s\<lparr> promises := promises s @ [Fulfilled] \<rparr>)
      else
        (let s1 = snd (initialize s)
         in (length (promises s1),
             s1\<lparr> promises := promises s1 @ [Pending],
                 initWaiters := initWaiters s1 @ [length (promises s1)] \<rparr>)))"

text \<open>The call \<open>p\<close> resumes after \<open>await this.initialize()\<close>, once that promise is settled.\<close>

definition initAwaited :: "nat \<Rightarrow> 's system \<Rightarrow> 's system" where
  "initAwaited p s =
     (if p \<in> set (initWaiters s)
      then (case initPromise s of
              None \<Rightarrow> s
            | Some ip \<Rightarrow>
                (if ip < length (promises s)
                 then (case promises s ! ip of
                         Pending \<Rightarrow> s
                       | Rejected e \<Rightarrow>
                           s\<lparr> initWaiters := removeAll p (initWaiters s),
                              promises := settle p (Rejected e) (promises s) \<rparr>
                       | Fulfilled \<Rightarrow>
                           s\<lparr> initWaiters := removeAll p (initWaiters s),
                              loadRemotes := loadRemotes s @ [p],
                              trace := trace s @
                                [OnStatus ''Loading model...'',
                                 LoadRemote (modelUrl (config s)) ''whisper.bin''
                                            (MODEL_SIZES (modelSize (config s)))] \<rparr>)
                 else s))
      else s)"

text \<open>
  The callback \<open>storeFS\<close> of call \<open>p\<close>. With \<open>this.Module\<close> null the unlink throws inside its
  \<open>try\<close>, and \<open>FS_createDataFile\<close> throws out of the callback: nothing is stored and the
  promise of the call is never settled.
\<close>

definition storeFS :: "nat \<Rightarrow> byte list \<Rightarrow> 's system \<Rightarrow> 's system" where
  "storeFS p buf s =
     (if p \<in> set (loadRemotes s)
      then (case Module s of
              None \<Rightarrow> s
            | Some m \<Rightarrow>
                s\<lparr> modelLoaded := True,
                   promises := settle p Fulfilled (promises s),
                   trace := trace s @
                     [FS_unlink ''whisper.bin'',
                      FS_createDataFile ''whisper.bin'' buf,
                      OnStatus ''Model loaded successfully''] \<rparr>)
      else s)"

definition cbCancel :: "nat \<Rightarrow> 's system \<Rightarrow> 's system" where
  "cbCancel p s =
     (if p \<in> set (loadRemotes s)
      then s\<lparr> promises := settle p (Rejected Cancelled) (promises s),
              trace := trace s @ [OnStatus ''Model loading cancelled''] \<rparr>
      else s)"

section \<open>Recording\<close>

text \<open>
  \<open>startTranscriptionPolling\<close>: a new interval timer with period 100; its callback is
  \<open>pollTick\<close>. The argument of \<open>pollTick\<close> is what \<open>get_transcribed\<close> returns if it is
  called on this tick (\<open>None\<close> for null).
\<close>

definition startTranscriptionPolling :: "'s system \<Rightarrow> 's system" where
  "startTranscriptionPolling s =
     s\<lparr> timers := timers s @ [True],
        trace := trace s @ [SetInterval (length (timers s)) 100] \<rparr>"

definition pollTick :: "nat \<Rightarrow> string option \<Rightarrow> 's system \<Rightarrow> 's system" where
  "pollTick t transcribed s =
     (if t < length (timers s) \<and> timers s ! t
      then (if \<not> isRecording s
            then s\<lparr> timers := (timers s)[t := False],
                    trace := trace s @ [ClearInterval t] \<rparr>
            else (case Module s of
                    None \<Rightarrow> s
                  | Some m \<Rightarrow>
                      (case transcribed of
                         None \<Rightarrow> s\<lparr> trace := trace s @ [GetTranscribed] \<rparr>
                       | Some txt \<Rightarrow>
                           (if length txt > 1
                            then s\<lparr> trace := trace s @ [GetTranscribed, OnTranscription txt] \<rparr>
                            else s\<lparr> trace := trace s @ [GetTranscribed] \<rparr>))))
      else s)"

text \<open>
  \<open>startRecording\<close> up to its \<open>await\<close>. The argument \<open>h\<close> is what the engine's \<open>init\<close>
  returns if it is called. The result is the promise of the call.
\<close>

definition contextOptions :: "'s system \<Rightarrow> context_options" where
  "contextOptions s =
     \<lparr> ctx_sampleRate = sampleRate (config s), channelCount = 1,
       echoCancellation = False, autoGainControl = True, noiseSuppression = True \<rparr>"

definition beginCapture :: "'s system \<Rightarrow> nat \<times> 's system" where
  "beginCapture s =
     (case Module s of
        None \<Rightarrow>
          (length (promises s),
           s\<lparr> audioContext := Some (contexts s),
              contexts := Suc (contexts s),
              promises := promises s @ [Rejected TypeError],
              trace := trace s @ [NewAudioContext (contexts s) (contextOptions s)] \<rparr>)
      | Some m \<Rightarrow>
          (length (promises s),
           s\<lparr> audioContext := Some (contexts s),
              contexts := Suc (contexts s),
              isRecording := True,
              promises := promises s @ [Pending],
              mediaReqs := mediaReqs s @ [length (promises s)],
              trace := trace s @
                [NewAudioContext (contexts s) (contextOptions s),
                 SetStatus [],
                 OnStatus ''Recording...'',
                 GetUserMedia (Flag True) (Flag False)] \<rparr>))"

definition startRecording :: "nat \<Rightarrow> 's system \<Rightarrow> nat \<times> 's system" where
  "startRecording h s =
     (if \<not> modelLoaded s
      then (length (promises s), s\<lparr> promises := promises s @ [Rejected ModelNotLoaded] \<rparr>)
      else if isRecording s
      then (length (promises s), s\<lparr> promises := promises s @ [Fulfilled] \<rparr>)
      else if \<not> truthy (instance' s)
      then (case Module s of
              None \<Rightarrow>
                (length (promises s), s\<lparr> promises := promises s @ [Rejected TypeError] \<rparr>)
            | Some m \<Rightarrow>
                (if h = 0
                 then (length (promises s),
                       s\<lparr> instance' := Some h,
                          promises := promises s @ [Rejected EngineInitFailed],
                          trace := trace s @ [EngineInit ''whisper.bin'' h] \<rparr>)
                 else beginCapture
                        (s\<lparr> instance' := Some h,
                            trace := trace s @ [EngineInit ''whisper.bin'' h] \<rparr>)))
      else beginCapture s)"

text \<open>The media-device request of call \<open>p\<close> resolves: the rest of the \<open>try\<close> block.\<close>

definition mediaGranted :: "nat \<Rightarrow> 's system \<Rightarrow> 's system" where
  "mediaGranted p s =
     (if p \<in> set (mediaReqs s)
      then startTranscriptionPolling
             (s\<lparr> mediaReqs := removeAll p (mediaReqs s),
                 mediaRecorder := Some (length (recorders s)),
                 recorders := recorders s @ [[]],
                 promises := settle p Fulfilled (promises s),
                 trace := trace s @
                   [NewMediaRecorder (length (recorders s)),
                    RecorderStart (length (recorders s)) (audioIntervalMs (config s))] \<rparr>)
      else s)"

text \<open>The media-device request of call \<open>p\<close> rejects: the \<open>catch\<close> block.\<close>

definition mediaDenied :: "nat \<Rightarrow> string \<Rightarrow> 's system \<Rightarrow> 's system" where
  "mediaDenied p msg s =
     (if p \<in> set (mediaReqs s)
      then s\<lparr> mediaReqs := removeAll p (mediaReqs s),
              isRecording := False,
              promises := settle p (Rejected (DeviceError msg)) (promises s),
              trace := trace s @ [OnStatus (''Error: '' @ msg)] \<rparr>
      else s)"

text \<open>
  \<open>ondataavailable\<close> of recorder \<open>r\<close>: the chunk is pushed onto the \<open>chunks\<close> array of that
  recorder's call, a blob is built from all of them, and a reader is started on it.
\<close>

definition ondataavailable :: "nat \<Rightarrow> byte list \<Rightarrow> 's system \<Rightarrow> 's system" where
  "ondataavailable r chunk s =
     (if r < length (recorders s)
      then s\<lparr> recorders := (recorders s)[r := recorders s ! r @ [chunk]],
              jobs := jobs s @ [\<lparr> blob = concat (recorders s ! r @ [chunk]), stage = Reading \<rparr>] \<rparr>
      else s)"

text \<open>\<open>reader.onload\<close> of job \<open>j\<close>: without an audio context the job ends here.\<close>

definition readerLoaded :: "nat \<Rightarrow> 's system \<Rightarrow> 's system" where
  "readerLoaded j s =
     (if j < length (jobs s) \<and> stage (jobs s ! j) = Reading
      then (case audioContext s of
              None \<Rightarrow> s\<lparr> jobs := (jobs s)[j := (jobs s ! j)\<lparr> stage := Dropped \<rparr>] \<rparr>
            | Some c \<Rightarrow> s\<lparr> jobs := (jobs s)[j := (jobs s ! j)\<lparr> stage := Decoding \<rparr>] \<rparr>)
      else s)"

text \<open>
  The rendering of job \<open>j\<close> is done: \<open>this.audio\<close> is the rendered channel, \<open>audioAll\<close> is
  \<open>audio0\<close> followed by it, and the engine is fed if there is an instance. (The decode
  callback before it touches no field of the controller.)
\<close>

definition audioAll :: "'s list option \<Rightarrow> 's list \<Rightarrow> 's list" where
  "audioAll a0 a = (case a0 of None \<Rightarrow> a | Some b \<Rightarrow> b @ a)"

definition rendered :: "nat \<Rightarrow> 's system \<Rightarrow> 's system" where
  "rendered j s =
     (if j < length (jobs s) \<and> stage (jobs s ! j) = Decoding
      then (let a = decodeAudio s (blob (jobs s ! j));
                s1 = s\<lparr> audio := Some a,
                        jobs := (jobs s)[j := (jobs s ! j)\<lparr> stage := Completed \<rparr>] \<rparr>
            in (case instance' s of
                  None \<Rightarrow> s1
                | Some h \<Rightarrow>
                    (if h = 0 then s1
                     else (case Module s of
                             None \<Rightarrow> s1
                           | Some m \<Rightarrow>
                               s1\<lparr> trace := trace s @ [SetAudio h (audioAll (audio0 s) a)] \<rparr>))))
      else s)"

text \<open>\<open>onstop\<close> of recorder \<open>r\<close>, and the timeout it sets firing.\<close>

definition recorderStopped :: "nat \<Rightarrow> 's system \<Rightarrow> 's system" where
  "recorderStopped r s =
     (if r < length (recorders s) \<and> isRecording s
      then s\<lparr> restarts := Suc (restarts s), trace := trace s @ [SetTimeout 0] \<rparr>
      else s)"

definition restartFired :: "nat \<Rightarrow> 's system \<Rightarrow> 's system" where
  "restartFired h s =
     (if restarts s > 0
      then snd (startRecording h (s\<lparr> restarts := restarts s - 1 \<rparr>))
      else s)"

text \<open>
  \<open>stopRecording\<close> and \<open>destroy\<close> are synchronous; \<open>Inl\<close> is an exception, thrown before
  any field is written.
\<close>

definition stopEffects :: "'s system \<Rightarrow> 's effect list" where
  "stopEffects s =
     [SetStatus ''paused'']
     @ (case mediaRecorder s of None \<Rightarrow> [] | Some r \<Rightarrow> [RecorderStop r])
     @ (case audioContext s of None \<Rightarrow> [] | Some c \<Rightarrow> [CloseAudioContext c])
     @ [OnStatus ''Stopped'']"

definition stopRecording :: "'s system \<Rightarrow> error + 's system" where
  "stopRecording s =
     (if \<not> isRecording s then Inr s
      else (case Module s of
              None \<Rightarrow> Inl TypeError
            | Some m \<Rightarrow>
                Inr (s\<lparr> isRecording := False, audio0 := None, audio := None,
                        mediaRecorder := None, audioContext := None,
                        trace := trace s @ stopEffects s \<rparr>)))"

definition destroy :: "'s system \<Rightarrow> error + 's system" where
  "destroy s =
     (case stopRecording s of
        Inl e \<Rightarrow> Inl e
      | Inr s1 \<Rightarrow> Inr (s1\<lparr> instance' := None, Module := None, modelLoaded := False \<rparr>))"

section \<open>The transition system\<close>

datatype event =
    Initialize
  | LoadModel
  | StartRecording nat
  | StopRecording
  | Destroy
  | CoiSettled
  | HelpersLoaded
  | HelpersError
  | WasmReady
  | WasmError error
  | InitAwaited nat
  | StoreFS nat "byte list"
  | CbCancel nat
  | MediaGranted nat
  | MediaDenied nat string
  | DataAvailable nat "byte list"
  | ReaderLoaded nat
  | Rendered nat
  | RecorderStopped nat
  | RestartFired nat
  | PollTick nat "string option"

fun step :: "event \<Rightarrow> 's system \<Rightarrow> 's system" where
  "step Initialize s = snd (initialize s)"
| "step LoadModel s = snd (loadModel s)"
| "step (StartRecording h) s = snd (startRecording h s)"
| "step StopRecording s = (case stopRecording s of Inl e \<Rightarrow> s | Inr s1 \<Rightarrow> s1)"
| "step Destroy s = (case destroy s of Inl e \<Rightarrow> s | Inr s1 \<Rightarrow> s1)"
| "step CoiSettled s = coiSettled s"
| "step HelpersLoaded s = helpersLoaded s"
| "step HelpersError s = initFailed AwaitHelpers HelpersFailed s"
| "step WasmReady s = wasmReady s"
| "step (WasmError e) s = initFailed AwaitWasm e s"
| "step (InitAwaited p) s = initAwaited p s"
| "step (StoreFS p buf) s = storeFS p buf s"
| "step (CbCancel p) s = cbCancel p s"
| "step (MediaGranted p) s = mediaGranted p s"
| "step (MediaDenied p msg) s = mediaDenied p msg s"
| "step (DataAvailable r chunk) s = ondataavailable r chunk s"
| "step (ReaderLoaded j) s = readerLoaded j s"
| "step (Rendered j) s = rendered j s"
| "step (RecorderStopped r) s = recorderStopped r s"
| "step (RestartFired h) s = restartFired h s"
| "step (PollTick t txt) s = pollTick t txt s"

fun run :: "event list \<Rightarrow> 's system \<Rightarrow> 's system" where
  "run [] s = s"
| "run (e # es) s = run es (step e s)"

inductive reachable :: "'s system \<Rightarrow> bool" where
  reach_new: "reachable (new c dec)"
| reach_step: "reachable s \<Longrightarrow> reachable (step e s)"

section \<open>Observations on the trace\<close>

text \<open>How often each part of the bring-up sequence has been started.\<close>

definition bootstraps :: "'s effect list \<Rightarrow> nat" where
  "bootstraps tr = count_list tr LoadCOIServiceWorker"

definition helperLoads :: "'s effect list \<Rightarrow> nat" where
  "helperLoads tr = count_list tr LoadHelpers"

definition runtimeLoads :: "'s effect list \<Rightarrow> nat" where
  "runtimeLoads tr = count_list tr LoadWasmModule"

text \<open>An engine instance is created by a call of \<open>init\<close> that returns a non-zero handle.\<close>

fun is_creation :: "'s effect \<Rightarrow> bool" where
  "is_creation (EngineInit name h) = (h \<noteq> 0)"
| "is_creation _ = False"

definition creations :: "'s effect list \<Rightarrow> nat" where
  "creations tr = length (filter is_creation tr)"

text \<open>The sample buffers fed to the engine, in order.\<close>

fun fed :: "'s effect \<Rightarrow> 's list list" where
  "fed (SetAudio h xs) = [xs]"
| "fed _ = []"

definition feeds :: "'s effect list \<Rightarrow> 's list list" where
  "feeds tr = concat (map fed tr)"

text \<open>The texts forwarded to the on-transcription callback, in order.\<close>

fun forwarded :: "'s effect \<Rightarrow> string list" where
  "forwarded (OnTranscription txt) = [txt]"
| "forwarded _ = []"

definition transcriptions :: "'s effect list \<Rightarrow> string list" where
  "transcriptions tr = concat (map forwarded tr)"

section \<open>Invariants of the reachable states\<close>

text \<open>
  The flags hang together: recording needs a loaded model, a loaded model and an engine
  instance need the runtime module, recording holds an audio context, \<open>audio0\<close> is never
  written with anything but null, the module is only there once bring-up is over, and
  bring-up has started exactly when there is a memoized promise.
\<close>

definition flags_ok :: "'s system \<Rightarrow> bool" where
  "flags_ok s \<longleftrightarrow>
     (isRecording s \<longrightarrow> modelLoaded s) \<and>
     (modelLoaded s \<longrightarrow> Module s \<noteq> None) \<and>
     (truthy (instance' s) \<longrightarrow> Module s \<noteq> None) \<and>
     (isRecording s \<longrightarrow> audioContext s \<noteq> None) \<and>
     (isRecording s \<longrightarrow> mediaReqs s \<noteq> [] \<or> mediaRecorder s \<noteq> None) \<and>
     audio0 s = None \<and>
     (initStage s \<noteq> Finished \<longrightarrow> Module s = None) \<and>
     (initPromise s = None \<longleftrightarrow> initStage s = NotStarted)"

section \<open>A concrete controller\<close>

text \<open>
  A controller with the default configuration and a decoder that yields one sample per
  byte; \<open>ready\<close> is that controller after bring-up and model load, \<open>recording\<close> after
  a granted \<open>startRecording\<close> whose engine \<open>init\<close> returned the handle 7.
\<close>

definition cfg0 :: WhisperConfig where
  "cfg0 = \<lparr> modelUrl_opt = None, modelSize_opt = None,
            sampleRate_opt = None, audioIntervalMs_opt = None \<rparr>"

definition dec0 :: "byte list \<Rightarrow> nat list" where
  "dec0 bs = map unat bs"

definition fresh :: "nat system" where
  "fresh = new cfg0 dec0"

definition bringUp :: "event list" where
  "bringUp = [Initialize, CoiSettled, HelpersLoaded, WasmReady]"

definition ready :: "nat system" where
  "ready = run (bringUp @ [LoadModel, InitAwaited 1, StoreFS 1 []]) fresh"

definition recording :: "nat system" where
  "recording = run [StartRecording 7, MediaGranted 2] ready"


text \<open>
  The memoized promise is a promise of the table, it is not the promise of any
  \<open>loadModel\<close> or \<open>startRecording\<close> call, and it is pending as long as the async body of
  \<open>initialize\<close> has not finished.
\<close>

definition init_ok :: "'s system \<Rightarrow> bool" where
  "init_ok s \<longleftrightarrow>
     (\<forall>ip. initPromise s = Some ip \<longrightarrow>
        ip < length (promises s) \<and>
        ip \<notin> set (initWaiters s) \<and> ip \<notin> set (loadRemotes s) \<and> ip \<notin> set (mediaReqs s) \<and>
        (initStage s \<noteq> Finished \<longrightarrow> promises s ! ip = Pending)) \<and>
     (\<forall>q \<in> set (initWaiters s) \<union> set (loadRemotes s) \<union> set (mediaReqs s).
        q < length (promises s))"

text \<open>Each part of the bring-up sequence has been started as often as the stage says.\<close>

definition bringup_once :: "'s system \<Rightarrow> bool" where
  "bringup_once s \<longleftrightarrow>
     bootstraps (trace s) = (if initStage s = NotStarted then 0 else 1) \<and>
     helperLoads (trace s) = (if initStage s \<in> {NotStarted, AwaitCOI} then 0 else 1) \<and>
     runtimeLoads (trace s) \<le> 1 \<and>
     (initStage s \<in> {NotStarted, AwaitCOI, AwaitHelpers} \<longrightarrow> runtimeLoads (trace s) = 0)"

text \<open>
  Bring-up is over and there is neither a module nor a loaded model: the state after a
  failed bring-up, and after \<open>destroy\<close> once bring-up is over.
\<close>

definition halted :: "'s system \<Rightarrow> bool" where
  "halted s \<longleftrightarrow>
     initStage s = Finished \<and> initPromise s \<noteq> None \<and> Module s = None \<and>
     \<not> modelLoaded s \<and> \<not> isRecording s"

text \<open>
  A controller whose bring-up waits for the helper script, and one where that script has
  failed to load.
\<close>

definition awaitingHelpers :: "nat system" where
  "awaitingHelpers = run [Initialize, CoiSettled] fresh"

definition failedInit :: "nat system" where
  "failedInit = step HelpersError awaitingHelpers"


text \<open>
  Either no engine instance has been created and none is held, or exactly one has been
  created, bring-up is over, and that instance is held unless the module is gone.
\<close>

definition create_ok :: "'s system \<Rightarrow> bool" where
  "create_ok s \<longleftrightarrow>
     creations (trace s) = 0 \<and> \<not> truthy (instance' s) \<or>
     creations (trace s) = 1 \<and> initStage s = Finished \<and>
       (truthy (instance' s) \<or> Module s = None)"

text \<open>
  The controller \<open>ready\<close> after a \<open>startRecording\<close> whose media-device request was
  rejected.
\<close>

definition deniedOnce :: "nat system" where
  "deniedOnce = run [StartRecording 7, MediaDenied 2 ''denied''] ready"

text \<open>
  Segments delivered in order: the recorder \<open>r\<close> delivers a chunk, and the reader and the
  decoder of that chunk's blob run to the end before the next chunk is delivered.
\<close>

definition segment :: "nat \<Rightarrow> byte list \<Rightarrow> 's system \<Rightarrow> 's system" where
  "segment r chunk s =
     run [DataAvailable r chunk, ReaderLoaded (length (jobs s)), Rendered (length (jobs s))] s"

fun segments :: "nat \<Rightarrow> byte list list \<Rightarrow> 's system \<Rightarrow> 's system" where
  "segments r [] s = s"
| "segments r (c # cs) s = segments r cs (segment r c s)"

text \<open>Every media-device request made so far asks for plain audio and no video.\<close>

definition requests_plain :: "'s system \<Rightarrow> bool" where
  "requests_plain s \<longleftrightarrow>
     (\<forall>a v. GetUserMedia a v \<in> set (trace s) \<longrightarrow> a = Flag True \<and> v = Flag False)"



text \<open>The chunks that recorder \<open>r\<close> delivers in a sequence of events, in order.\<close>

fun delivered :: "nat \<Rightarrow> event list \<Rightarrow> byte list list" where
  "delivered r [] = []"
| "delivered r (DataAvailable r' c # es) =
     (if r' = r then c # delivered r es else delivered r es)"
| "delivered r (e # es) = delivered r es"

text \<open>Two chunks of raw audio, of 1000 and of 500 bytes.\<close>

definition chunkA :: "byte list" where
  "chunkA = replicate 1000 0"

definition chunkB :: "byte list" where
  "chunkB = replicate 500 0"

section \<open>Proofs of the invariants\<close>

lemmas op_defs =
  initialize_def coiSettled_def helpersLoaded_def initFailed_def wasmReady_def
  loadModel_def initAwaited_def storeFS_def cbCancel_def
  startTranscriptionPolling_def pollTick_def beginCapture_def startRecording_def
  mediaGranted_def mediaDenied_def ondataavailable_def readerLoaded_def rendered_def
  recorderStopped_def restartFired_def stopRecording_def destroy_def

lemma flags_ok_new: "flags_ok (new c dec)"
  by (simp add: flags_ok_def new_def)

lemma flags_ok_initialize: "flags_ok s \<Longrightarrow> flags_ok (snd (initialize s))"
  by (auto simp: flags_ok_def initialize_def split: option.splits)

lemma flags_ok_loadModel: "flags_ok s \<Longrightarrow> flags_ok (snd (loadModel s))"
  by (auto simp: flags_ok_def loadModel_def initialize_def Let_def split: option.splits)

lemma flags_ok_beginCapture:
  "flags_ok s \<Longrightarrow> \<not> isRecording s \<Longrightarrow> modelLoaded s \<Longrightarrow> flags_ok (snd (beginCapture s))"
  by (auto simp: flags_ok_def beginCapture_def split: option.splits)

lemma flags_ok_startRecording: "flags_ok s \<Longrightarrow> flags_ok (snd (startRecording h s))"
  unfolding startRecording_def
  by (auto simp: flags_ok_beginCapture split: option.splits)
     (auto simp: flags_ok_def beginCapture_def)

lemma flags_ok_stopRecording: "flags_ok s \<Longrightarrow> stopRecording s = Inr s1 \<Longrightarrow> flags_ok s1"
  by (auto simp: flags_ok_def stopRecording_def split: option.splits if_splits)

lemma flags_ok_destroy: "flags_ok s \<Longrightarrow> destroy s = Inr s1 \<Longrightarrow> flags_ok s1"
  by (auto simp: flags_ok_def destroy_def stopRecording_def
           split: option.splits if_splits sum.splits)

lemma flags_ok_bringup:
  "flags_ok s \<Longrightarrow> flags_ok (coiSettled s)"
  "flags_ok s \<Longrightarrow> flags_ok (helpersLoaded s)"
  "flags_ok s \<Longrightarrow> st \<noteq> NotStarted \<Longrightarrow> flags_ok (initFailed st er s)"
  "flags_ok s \<Longrightarrow> flags_ok (wasmReady s)"
  by (auto simp: flags_ok_def coiSettled_def helpersLoaded_def initFailed_def wasmReady_def
           split: option.splits)

lemma flags_ok_load:
  "flags_ok s \<Longrightarrow> flags_ok (initAwaited p s)"
  "flags_ok s \<Longrightarrow> flags_ok (storeFS p buf s)"
  "flags_ok s \<Longrightarrow> flags_ok (cbCancel p s)"
  by (auto simp: flags_ok_def initAwaited_def storeFS_def cbCancel_def
           split: option.splits outcome.splits)

lemma flags_ok_media:
  "flags_ok s \<Longrightarrow> flags_ok (mediaGranted p s)"
  "flags_ok s \<Longrightarrow> flags_ok (mediaDenied p msg s)"
  by (auto simp: flags_ok_def mediaGranted_def mediaDenied_def startTranscriptionPolling_def)

lemma flags_ok_callbacks:
  "flags_ok s \<Longrightarrow> flags_ok (ondataavailable r c s)"
  "flags_ok s \<Longrightarrow> flags_ok (readerLoaded j s)"
  "flags_ok s \<Longrightarrow> flags_ok (rendered j s)"
  "flags_ok s \<Longrightarrow> flags_ok (recorderStopped r s)"
  "flags_ok s \<Longrightarrow> flags_ok (pollTick t txt s)"
  by (auto simp: flags_ok_def ondataavailable_def readerLoaded_def rendered_def
                 recorderStopped_def pollTick_def Let_def split: option.splits)

lemma flags_ok_restartFired: "flags_ok s \<Longrightarrow> flags_ok (restartFired h s)"
proof (cases "restarts s > 0")
  case True
  assume a: "flags_ok s"
  have "flags_ok (s\<lparr>restarts := restarts s - 1\<rparr>)"
    using a by (simp add: flags_ok_def)
  then show ?thesis
    using True by (simp add: restartFired_def flags_ok_startRecording)
next
  case False
  assume "flags_ok s"
  then show ?thesis
    using False by (simp add: restartFired_def)
qed

lemma flags_ok_step: "flags_ok s \<Longrightarrow> flags_ok (step e s)"
  by (cases e)
     (auto simp: flags_ok_initialize flags_ok_loadModel flags_ok_startRecording
                 flags_ok_bringup flags_ok_load flags_ok_media flags_ok_callbacks
                 flags_ok_restartFired
           split: sum.splits intro: flags_ok_stopRecording flags_ok_destroy)

lemma reachable_flags_ok: "reachable s \<Longrightarrow> flags_ok s"
  by (induction rule: reachable.induct) (simp_all add: flags_ok_new flags_ok_step)

lemma reachable_run: "reachable s \<Longrightarrow> reachable (run es s)"
  by (induction es arbitrary: s) (simp_all add: reachable.reach_step)

lemma reachable_fresh: "reachable fresh"
  unfolding fresh_def by (rule reachable.reach_new)

lemma reachable_ready: "reachable ready"
  unfolding ready_def by (rule reachable_run [OF reachable_fresh])

lemma reachable_recording: "reachable recording"
  unfolding recording_def by (rule reachable_run [OF reachable_ready])

lemmas conc_defs =
  fresh_def new_def cfg0_def resolve_config_def bringUp_def ready_def recording_def settle_def

lemma fresh_fields:
  "\<not> modelLoaded fresh" "\<not> isRecording fresh" "promises fresh = []" "trace fresh = []"
  "instance' fresh = None" "mediaReqs fresh = []" "Module fresh = None"
  by (simp_all add: conc_defs)

lemma ready_fields:
  "modelLoaded ready" "\<not> isRecording ready" "promises ready = [Fulfilled, Fulfilled]"
  "Module ready = Some WasmModule" "instance' ready = None" "initStage ready = Finished"
  "initPromise ready = Some 0" "mediaReqs ready = []" "contexts ready = 0"
  "audioContext ready = None" "mediaRecorder ready = None" "recorders ready = []"
  "timers ready = []" "audio0 ready = None" "jobs ready = []"
  by (simp_all add: conc_defs op_defs)

lemma recording_fields:
  "modelLoaded recording" "isRecording recording"
  "promises recording = [Fulfilled, Fulfilled, Fulfilled]"
  "Module recording = Some WasmModule" "instance' recording = Some 7"
  "audioContext recording = Some 0" "mediaRecorder recording = Some 0"
  "mediaReqs recording = []" "timers recording = [True]" "recorders recording = [[]]"
  "audio0 recording = None" "jobs recording = []"
  by (simp_all add: conc_defs op_defs)

section \<open>The guards of \<open>startRecording\<close>\<close>

text \<open>
  Claim C4. In every reachable state where the model is not loaded, \<open>startRecording\<close>
  returns a promise rejected with the model-not-loaded error and changes nothing else:
  the trace is as before (no engine \<open>init\<close>, no \<open>getUserMedia\<close>), no media request is
  pending, the instance handle is as before and the recording flag is false. In every
  reachable state where recording is in progress it returns a fulfilled promise and
  changes nothing else.
\<close>

theorem startRecording_guards:
  assumes "reachable s"
  shows "(\<not> modelLoaded s \<longrightarrow>
            snd (startRecording h s) = s\<lparr> promises := promises s @ [Rejected ModelNotLoaded] \<rparr> \<and>
            promises (snd (startRecording h s)) ! fst (startRecording h s) = Rejected ModelNotLoaded \<and>
            trace (snd (startRecording h s)) = trace s \<and>
            mediaReqs (snd (startRecording h s)) = mediaReqs s \<and>
            instance' (snd (startRecording h s)) = instance' s \<and>
            \<not> isRecording (snd (startRecording h s))) \<and>
         (isRecording s \<longrightarrow>
            snd (startRecording h s) = s\<lparr> promises := promises s @ [Fulfilled] \<rparr> \<and>
            promises (snd (startRecording h s)) ! fst (startRecording h s) = Fulfilled)"
proof -
  from assms have "flags_ok s" by (rule reachable_flags_ok)
  then have a: "isRecording s \<longrightarrow> modelLoaded s"
    by (simp add: flags_ok_def)
  show ?thesis using a by (auto simp: startRecording_def)
qed

theorem startRecording_guards_witness:
  "reachable fresh \<and> \<not> modelLoaded fresh \<and>
   snd (startRecording 7 fresh) = fresh\<lparr> promises := promises fresh @ [Rejected ModelNotLoaded] \<rparr> \<and>
   promises (snd (startRecording 7 fresh)) ! fst (startRecording 7 fresh) = Rejected ModelNotLoaded \<and>
   trace (snd (startRecording 7 fresh)) = trace fresh \<and>
   \<not> isRecording (snd (startRecording 7 fresh)) \<and>
   reachable recording \<and> isRecording recording \<and>
   snd (startRecording 7 recording) = recording\<lparr> promises := promises recording @ [Fulfilled] \<rparr> \<and>
   promises (snd (startRecording 7 recording)) ! fst (startRecording 7 recording) = Fulfilled"
proof -
  have a: "\<not> modelLoaded fresh" by (simp add: fresh_fields)
  have b: "isRecording recording" by (simp add: recording_fields)
  show ?thesis
    using startRecording_guards [OF reachable_fresh, of 7]
          startRecording_guards [OF reachable_recording, of 7]
          a b reachable_fresh reachable_recording
    by blast
qed















section \<open>\<open>stopRecording\<close>\<close>






section \<open>Reaching the media-device request\<close>


section \<open>The transcription poller\<close>

lemma transcriptions_append:
  "transcriptions (xs @ ys) = transcriptions xs @ transcriptions ys"
  by (simp add: transcriptions_def)

lemma pollTick_recording:
  assumes "isRecording s" and "Module s \<noteq> None" and "t < length (timers s)" and "timers s ! t"
  shows "pollTick t txt s =
           s\<lparr> trace := trace s @ GetTranscribed #
                  (case txt of None \<Rightarrow> []
                   | Some x \<Rightarrow> if length x > 1 then [OnTranscription x] else []) \<rparr>"
  using assms by (auto simp: pollTick_def split: option.splits)

text \<open>Ticks on which the engine has nothing but the empty string forward nothing.\<close>

lemma idle_ticks:
  assumes "isRecording s" and "Module s \<noteq> None" and "t < length (timers s)" and "timers s ! t"
  shows "run (replicate n (PollTick t (Some []))) s =
           s\<lparr> trace := trace s @ replicate n GetTranscribed \<rparr>"
  using assms
proof (induction n arbitrary: s)
  case 0
  then show ?case by simp
next
  case (Suc n)
  let ?s1 = "s\<lparr> trace := trace s @ [GetTranscribed] \<rparr>"
  have st: "step (PollTick t (Some [])) s = ?s1"
    using Suc.prems by (simp add: pollTick_recording)
  have "run (replicate n (PollTick t (Some []))) ?s1 =
          ?s1\<lparr> trace := trace ?s1 @ replicate n GetTranscribed \<rparr>"
    by (rule Suc.IH) (use Suc.prems in simp_all)
  then show ?case
    using st by (simp add: replicate_app_Cons_same)
qed

lemma transcriptions_idle: "transcriptions (replicate n GetTranscribed) = []"
  by (induction n) (simp_all add: transcriptions_def)

text \<open>
  Claim C8. \<open>startTranscriptionPolling\<close> sets one interval timer with period 100 whose
  callback is \<open>pollTick\<close>. In a reachable state, a tick of a timer that is set does this:
  with the recording flag true it pulls the transcript and forwards the pulled text,
  unchanged, to the on-transcription callback exactly if the text is not null and longer
  than one character, and the timer stays set; with the flag false it pulls nothing,
  forwards nothing and clears the timer, after which its ticks do nothing. With an engine
  that returns "hello" on the first pull and the empty string on the \<open>n\<close> pulls after it,
  exactly one text is forwarded, "hello".
\<close>

theorem poller_behaviour:
  assumes "reachable s" and "t < length (timers s)" and "timers s ! t"
  shows "startTranscriptionPolling s =
           s\<lparr> timers := timers s @ [True],
              trace := trace s @ [SetInterval (length (timers s)) 100] \<rparr> \<and>
         (isRecording s \<longrightarrow>
            pollTick t txt s =
              s\<lparr> trace := trace s @ GetTranscribed #
                     (case txt of None \<Rightarrow> []
                      | Some x \<Rightarrow> if length x > 1 then [OnTranscription x] else []) \<rparr> \<and>
            transcriptions (trace (pollTick t txt s)) =
              transcriptions (trace s) @
                (case txt of None \<Rightarrow> [] | Some x \<Rightarrow> if length x > 1 then [x] else []) \<and>
            transcriptions
              (trace (run (PollTick t (Some ''hello'') # replicate n (PollTick t (Some []))) s)) =
              transcriptions (trace s) @ [''hello'']) \<and>
         (\<not> isRecording s \<longrightarrow>
            pollTick t txt s =
              s\<lparr> timers := (timers s)[t := False], trace := trace s @ [ClearInterval t] \<rparr> \<and>
            pollTick t txt' (pollTick t txt s) = pollTick t txt s)"
proof -
  from assms(1) have f: "flags_ok s" by (rule reachable_flags_ok)
  have a: "startTranscriptionPolling s =
             s\<lparr> timers := timers s @ [True],
                trace := trace s @ [SetInterval (length (timers s)) 100] \<rparr>"
    by (simp add: startTranscriptionPolling_def)
  have b: "\<not> isRecording s \<longrightarrow>
             pollTick t txt s =
               s\<lparr> timers := (timers s)[t := False], trace := trace s @ [ClearInterval t] \<rparr> \<and>
             pollTick t txt' (pollTick t txt s) = pollTick t txt s"
    using assms(2,3) by (simp add: pollTick_def)
  have c: "isRecording s \<longrightarrow>
            pollTick t txt s =
              s\<lparr> trace := trace s @ GetTranscribed #
                     (case txt of None \<Rightarrow> []
                      | Some x \<Rightarrow> if length x > 1 then [OnTranscription x] else []) \<rparr> \<and>
            transcriptions (trace (pollTick t txt s)) =
              transcriptions (trace s) @
                (case txt of None \<Rightarrow> [] | Some x \<Rightarrow> if length x > 1 then [x] else []) \<and>
            transcriptions
              (trace (run (PollTick t (Some ''hello'') # replicate n (PollTick t (Some []))) s)) =
              transcriptions (trace s) @ [''hello'']"
  proof
    assume r: "isRecording s"
    with f have m: "Module s \<noteq> None" by (auto simp: flags_ok_def)
    note p = pollTick_recording [OF r m assms(2,3)]
    let ?s1 = "s\<lparr> trace := trace s @ [GetTranscribed, OnTranscription ''hello''] \<rparr>"
    have h: "step (PollTick t (Some ''hello'')) s = ?s1"
      by (simp add: p)
    have i: "run (replicate n (PollTick t (Some []))) ?s1 =
               ?s1\<lparr> trace := trace ?s1 @ replicate n GetTranscribed \<rparr>"
      by (rule idle_ticks) (use r m assms(2,3) in simp_all)
    have "transcriptions
            (trace (run (PollTick t (Some ''hello'') # replicate n (PollTick t (Some []))) s)) =
          transcriptions (trace s) @ [''hello'']"
      using h i by (simp add: transcriptions_append transcriptions_idle)
                   (simp add: transcriptions_def)
    moreover have "transcriptions (trace (pollTick t txt s)) =
              transcriptions (trace s) @
                (case txt of None \<Rightarrow> [] | Some x \<Rightarrow> if length x > 1 then [x] else [])"
      by (simp add: p transcriptions_append split: option.splits)
         (simp add: transcriptions_def)
    ultimately show "pollTick t txt s =
              s\<lparr> trace := trace s @ GetTranscribed #
                     (case txt of None \<Rightarrow> []
                      | Some x \<Rightarrow> if length x > 1 then [OnTranscription x] else []) \<rparr> \<and>
            transcriptions (trace (pollTick t txt s)) =
              transcriptions (trace s) @
                (case txt of None \<Rightarrow> [] | Some x \<Rightarrow> if length x > 1 then [x] else []) \<and>
            transcriptions
              (trace (run (PollTick t (Some ''hello'') # replicate n (PollTick t (Some []))) s)) =
              transcriptions (trace s) @ [''hello'']"
      using p by blast
  qed
  from a b c show ?thesis by blast
qed

lemma stopped_fields:
  "stopRecording recording = Inr s1 \<Longrightarrow> \<not> isRecording s1 \<and> timers s1 = [True]"
  by (auto simp: stopRecording_def recording_fields)

theorem poller_behaviour_witness:
  "reachable recording \<and> 0 < length (timers recording) \<and> timers recording ! 0 \<and>
   isRecording recording \<and>
   transcriptions
     (trace (run (PollTick 0 (Some ''hello'') # replicate 3 (PollTick 0 (Some []))) recording)) =
     transcriptions (trace recording) @ [''hello''] \<and>
   reachable (step StopRecording recording) \<and>
   \<not> isRecording (step StopRecording recording) \<and>
   pollTick 0 (Some ''late'') (step StopRecording recording) =
     (step StopRecording recording)
       \<lparr> timers := (timers (step StopRecording recording))[0 := False],
         trace := trace (step StopRecording recording) @ [ClearInterval 0] \<rparr>"
proof -
  have a: "0 < length (timers recording)" "timers recording ! 0" "isRecording recording"
    by (simp_all add: recording_fields)
  have r: "reachable (step StopRecording recording)"
    by (rule reachable.reach_step [OF reachable_recording])
  have b: "0 < length (timers (step StopRecording recording))"
          "timers (step StopRecording recording) ! 0"
          "\<not> isRecording (step StopRecording recording)"
    using stopped_fields by (auto split: sum.splits simp: recording_fields stopRecording_def)
  show ?thesis
    using poller_behaviour [OF reachable_recording a(1,2), of "Some ''x''" 3]
          poller_behaviour [OF r b(1,2), of "Some ''late''"]
          reachable_recording r a b(3)
    by blast
qed
section \<open>What the capture device is asked for\<close>

lemma requests_plain_step: "requests_plain s \<Longrightarrow> requests_plain (step e s)"
  by (cases e)
     (auto simp: requests_plain_def op_defs stopEffects_def Let_def
           split: option.splits outcome.splits sum.splits if_splits)

lemma reachable_requests_plain: "reachable s \<Longrightarrow> requests_plain s"
  by (induction rule: reachable.induct)
     (simp_all add: requests_plain_step, simp add: requests_plain_def new_def)

text \<open>
  Claim C9, evaluated on the controller \<open>ready\<close> (default configuration, sample rate
  16000). A \<open>startRecording\<close> that passes its guards hands the sample rate, the channel
  count 1, echo cancellation off, auto gain on and noise suppression on to the
  constructor of the audio context; the capture device is then requested with the plain
  flags \<open>audio: true, video: false\<close>, and no constraint reaches that request.
\<close>

theorem capture_request_plain:
  "trace (snd (startRecording 7 ready)) =
     trace ready @
       [EngineInit ''whisper.bin'' 7,
        NewAudioContext 0
          \<lparr> ctx_sampleRate = 16000, channelCount = 1, echoCancellation = False,
            autoGainControl = True, noiseSuppression = True \<rparr>,
        SetStatus [],
        OnStatus ''Recording...'',
        GetUserMedia (Flag True) (Flag False)] \<and>
   GetUserMedia (Constrained
          \<lparr> ctx_sampleRate = 16000, channelCount = 1, echoCancellation = False,
            autoGainControl = True, noiseSuppression = True \<rparr>) (Flag False)
     \<notin> set (trace (run [StartRecording 7, MediaGranted 2] ready)) \<and>
   promises (run [StartRecording 7, MediaGranted 2] ready) ! 2 = Fulfilled"
  by (simp add: conc_defs op_defs contextOptions_def)
section \<open>Promises and the memoized bring-up\<close>

lemma settle_length [simp]: "length (settle p out ps) = length ps"
  by (simp add: settle_def)

lemma settle_settled:
  "q < length ps \<Longrightarrow> ps ! q \<noteq> Pending \<Longrightarrow> settle p out ps ! q = ps ! q"
  by (auto simp: settle_def nth_list_update)

lemma settle_other: "q \<noteq> p \<Longrightarrow> settle p out ps ! q = ps ! q"
  by (simp add: settle_def)

lemma settle_member:
  "p \<in> set xs \<Longrightarrow> q \<notin> set xs \<Longrightarrow> settle p out ps ! q = ps ! q"
  by (rule settle_other) auto

lemma settle_same: "p < length ps \<Longrightarrow> ps ! p = Pending \<Longrightarrow> settle p out ps ! p = out"
  by (simp add: settle_def)

lemma initPromise_step: "initPromise s = Some p \<Longrightarrow> initPromise (step e s) = Some p"
  by (cases e)
     (simp_all add: op_defs Let_def split: option.splits outcome.splits sum.splits)

lemma initPromise_run: "initPromise s = Some p \<Longrightarrow> initPromise (run es s) = Some p"
  by (induction es arbitrary: s) (simp_all add: initPromise_step)

lemma settled_step:
  "p < length (promises s) \<Longrightarrow> promises s ! p \<noteq> Pending \<Longrightarrow>
   p < length (promises (step e s)) \<and> promises (step e s) ! p = promises s ! p"
  by (cases e)
     (simp_all add: op_defs Let_def settle_settled nth_append
               split: option.splits outcome.splits sum.splits)

lemma settled_run:
  "p < length (promises s) \<Longrightarrow> promises s ! p \<noteq> Pending \<Longrightarrow>
   p < length (promises (run es s)) \<and> promises (run es s) ! p = promises s ! p"
proof (induction es arbitrary: s)
  case Nil
  then show ?case by simp
next
  case (Cons e es)
  from settled_step [OF Cons.prems, of e]
  have a: "p < length (promises (step e s))" and b: "promises (step e s) ! p = promises s ! p"
    by simp_all
  from b Cons.prems(2) have c: "promises (step e s) ! p \<noteq> Pending" by simp
  from Cons.IH [OF a c] b show ?case by simp
qed

lemma count_defs_append:
  "bootstraps (xs @ ys) = bootstraps xs + bootstraps ys"
  "helperLoads (xs @ ys) = helperLoads xs + helperLoads ys"
  "runtimeLoads (xs @ ys) = runtimeLoads xs + runtimeLoads ys"
  "creations (xs @ ys) = creations xs + creations ys"
  by (simp_all add: bootstraps_def helperLoads_def runtimeLoads_def creations_def)

lemma init_ok_new: "init_ok (new c dec)"
  by (simp add: init_ok_def new_def)

lemma init_ok_initialize: "init_ok s \<Longrightarrow> init_ok (snd (initialize s))"
  by (auto simp: init_ok_def initialize_def nth_append less_Suc_eq split: option.splits)

lemma init_ok_loadModel: "init_ok s \<Longrightarrow> init_ok (snd (loadModel s))"
  by (auto simp: init_ok_def loadModel_def initialize_def Let_def nth_append less_Suc_eq
           split: option.splits)

lemma init_ok_beginCapture: "init_ok s \<Longrightarrow> init_ok (snd (beginCapture s))"
  by (auto simp: init_ok_def beginCapture_def nth_append less_Suc_eq split: option.splits)

lemma init_ok_startRecording: "init_ok s \<Longrightarrow> init_ok (snd (startRecording h s))"
  unfolding startRecording_def
  by (auto simp: init_ok_beginCapture split: option.splits)
     (auto simp: init_ok_def beginCapture_def nth_append less_Suc_eq)

lemma init_ok_stopRecording: "init_ok s \<Longrightarrow> stopRecording s = Inr s1 \<Longrightarrow> init_ok s1"
  by (auto simp: init_ok_def stopRecording_def split: option.splits if_splits)

lemma init_ok_destroy: "init_ok s \<Longrightarrow> destroy s = Inr s1 \<Longrightarrow> init_ok s1"
  by (auto simp: init_ok_def destroy_def stopRecording_def
           split: option.splits if_splits sum.splits)

lemma init_ok_bringup:
  "init_ok s \<Longrightarrow> init_ok (coiSettled s)"
  "init_ok s \<Longrightarrow> init_ok (helpersLoaded s)"
  "init_ok s \<Longrightarrow> init_ok (initFailed st er s)"
  "init_ok s \<Longrightarrow> init_ok (wasmReady s)"
  by (auto simp: init_ok_def coiSettled_def helpersLoaded_def initFailed_def wasmReady_def
           split: option.splits)

lemma init_ok_load:
  "init_ok s \<Longrightarrow> init_ok (initAwaited p s)"
  "init_ok s \<Longrightarrow> init_ok (storeFS p buf s)"
  "init_ok s \<Longrightarrow> init_ok (cbCancel p s)"
  by (auto simp: init_ok_def initAwaited_def storeFS_def cbCancel_def settle_member
           split: option.splits outcome.splits)

lemma init_ok_media:
  "init_ok s \<Longrightarrow> init_ok (mediaGranted p s)"
  "init_ok s \<Longrightarrow> init_ok (mediaDenied p msg s)"
  by (auto simp: init_ok_def mediaGranted_def mediaDenied_def startTranscriptionPolling_def
                 settle_member)

lemma init_ok_callbacks:
  "init_ok s \<Longrightarrow> init_ok (ondataavailable r c s)"
  "init_ok s \<Longrightarrow> init_ok (readerLoaded j s)"
  "init_ok s \<Longrightarrow> init_ok (rendered j s)"
  "init_ok s \<Longrightarrow> init_ok (recorderStopped r s)"
  "init_ok s \<Longrightarrow> init_ok (pollTick t txt s)"
  by (auto simp: init_ok_def ondataavailable_def readerLoaded_def rendered_def
                 recorderStopped_def pollTick_def Let_def split: option.splits)

lemma init_ok_restartFired: "init_ok s \<Longrightarrow> init_ok (restartFired h s)"
proof (cases "restarts s > 0")
  case True
  assume a: "init_ok s"
  have "init_ok (s\<lparr>restarts := restarts s - 1\<rparr>)"
    using a by (simp add: init_ok_def)
  then show ?thesis
    using True by (simp add: restartFired_def init_ok_startRecording)
next
  case False
  assume "init_ok s"
  then show ?thesis
    using False by (simp add: restartFired_def)
qed

lemma init_ok_step: "init_ok s \<Longrightarrow> init_ok (step e s)"
  by (cases e)
     (auto simp: init_ok_initialize init_ok_loadModel init_ok_startRecording
                 init_ok_bringup init_ok_load init_ok_media init_ok_callbacks
                 init_ok_restartFired
           split: sum.splits intro: init_ok_stopRecording init_ok_destroy)

lemma reachable_init_ok: "reachable s \<Longrightarrow> init_ok s"
  by (induction rule: reachable.induct) (simp_all add: init_ok_new init_ok_step)


lemma startRecording_bringup_frame:
  "initStage (snd (startRecording h s)) = initStage s \<and>
   initPromise (snd (startRecording h s)) = initPromise s \<and>
   bootstraps (trace (snd (startRecording h s))) = bootstraps (trace s) \<and>
   helperLoads (trace (snd (startRecording h s))) = helperLoads (trace s) \<and>
   runtimeLoads (trace (snd (startRecording h s))) = runtimeLoads (trace s)"
  by (simp add: startRecording_def beginCapture_def count_defs_append
                bootstraps_def helperLoads_def runtimeLoads_def split: option.splits)

lemma halted_step:
  "halted s \<Longrightarrow>
   halted (step e s) \<and> bootstraps (trace (step e s)) = bootstraps (trace s) \<and>
   helperLoads (trace (step e s)) = helperLoads (trace s) \<and>
   runtimeLoads (trace (step e s)) = runtimeLoads (trace s) \<and>
   creations (trace (step e s)) = creations (trace s)"
  by (cases e)
     (simp_all add: halted_def op_defs Let_def count_defs_append
                 bootstraps_def helperLoads_def runtimeLoads_def creations_def
           split: option.splits outcome.splits sum.splits, auto)

lemma halted_run:
  "halted s \<Longrightarrow>
   halted (run es s) \<and> bootstraps (trace (run es s)) = bootstraps (trace s) \<and>
   helperLoads (trace (run es s)) = helperLoads (trace s) \<and>
   runtimeLoads (trace (run es s)) = runtimeLoads (trace s) \<and>
   creations (trace (run es s)) = creations (trace s)"
proof (induction es arbitrary: s)
  case Nil
  then show ?case by simp
next
  case (Cons e es)
  from halted_step [OF Cons.prems, of e] Cons.IH [of "step e s"]
  show ?case by simp
qed

lemma bringup_once_new: "bringup_once (new c dec)"
  by (simp add: bringup_once_def new_def bootstraps_def helperLoads_def runtimeLoads_def)

lemma bringup_once_restart:
  "bringup_once s \<Longrightarrow> bringup_once (restartFired h s)"
  using startRecording_bringup_frame [of h "s\<lparr>restarts := restarts s - 1\<rparr>"]
  by (simp add: bringup_once_def restartFired_def)

lemma bringup_once_step:
  assumes "flags_ok s" and "bringup_once s"
  shows "bringup_once (step e s)"
proof (cases e)
  case Initialize
  from assms(1) have "initPromise s = None \<longleftrightarrow> initStage s = NotStarted"
    by (simp add: flags_ok_def)
  with assms(2) show ?thesis
    using Initialize
    by (auto simp: bringup_once_def initialize_def count_defs_append
                   bootstraps_def helperLoads_def runtimeLoads_def split: option.splits)
next
  case LoadModel
  from assms(1) have "initPromise s = None \<longleftrightarrow> initStage s = NotStarted"
    by (simp add: flags_ok_def)
  with assms(2) show ?thesis
    using LoadModel
    by (auto simp: bringup_once_def loadModel_def initialize_def Let_def count_defs_append
                   bootstraps_def helperLoads_def runtimeLoads_def split: option.splits)
next
  case (StartRecording h)
  with assms(2) show ?thesis
    using startRecording_bringup_frame [of h s]
    by (simp add: bringup_once_def)
next
  case (RestartFired h)
  with assms(2) show ?thesis
    by (simp add: bringup_once_restart)
qed (use assms(2) in \<open>simp_all add: bringup_once_def coiSettled_def helpersLoaded_def
          initFailed_def wasmReady_def initAwaited_def storeFS_def cbCancel_def
          startTranscriptionPolling_def pollTick_def mediaGranted_def mediaDenied_def
          ondataavailable_def readerLoaded_def rendered_def recorderStopped_def
          stopRecording_def stopEffects_def destroy_def Let_def count_defs_append
          bootstraps_def helperLoads_def runtimeLoads_def
        split: option.splits outcome.splits sum.splits\<close>)

lemma reachable_bringup_once: "reachable s \<Longrightarrow> bringup_once s"
proof (induction rule: reachable.induct)
  case (reach_new c dec)
  show ?case by (rule bringup_once_new)
next
  case (reach_step s e)
  from reach_step.hyps have "flags_ok s" by (rule reachable_flags_ok)
  then show ?case using reach_step.IH by (rule bringup_once_step)
qed

section \<open>\<open>initialize\<close> is memoized\<close>

lemma initialize_sets: "initPromise (snd (initialize s)) = Some (fst (initialize s))"
  by (simp add: initialize_def split: option.splits)

lemma initialize_memo: "initPromise s = Some p \<Longrightarrow> initialize s = (p, s)"
  by (simp add: initialize_def)

text \<open>
  Claim C2. In every reachable state, whatever calls and callbacks led to it, the
  isolation bootstrap, the helper load and the runtime load have each been started at most
  once. After a call of \<open>initialize\<close>, and whatever happens then, a further call returns
  the same promise as the first one and changes nothing, and the bootstrap has been started
  exactly once.
\<close>

theorem initialize_once:
  assumes "reachable s"
  shows "bootstraps (trace s) \<le> 1 \<and> helperLoads (trace s) \<le> 1 \<and> runtimeLoads (trace s) \<le> 1 \<and>
         fst (initialize (run es (snd (initialize s)))) = fst (initialize s) \<and>
         snd (initialize (run es (snd (initialize s)))) = run es (snd (initialize s)) \<and>
         bootstraps (trace (run es (snd (initialize s)))) = 1"
proof -
  let ?s1 = "snd (initialize s)"
  from assms have b: "bringup_once s" by (rule reachable_bringup_once)
  then have counts: "bootstraps (trace s) \<le> 1 \<and> helperLoads (trace s) \<le> 1 \<and>
      runtimeLoads (trace s) \<le> 1"
    by (simp add: bringup_once_def)
  have "initPromise (run es ?s1) = Some (fst (initialize s))"
    by (rule initPromise_run) (rule initialize_sets)
  then have memo: "initialize (run es ?s1) = (fst (initialize s), run es ?s1)"
      and some: "initPromise (run es ?s1) \<noteq> None"
    by (simp_all add: initialize_memo)
  have "reachable (step Initialize s)"
    using assms by (rule reachable.reach_step)
  then have r: "reachable (run es ?s1)"
    by (simp add: reachable_run)
  from r have "flags_ok (run es ?s1)" by (rule reachable_flags_ok)
  with some have st: "initStage (run es ?s1) \<noteq> NotStarted"
    by (auto simp: flags_ok_def)
  from r have "bringup_once (run es ?s1)" by (rule reachable_bringup_once)
  with st have "bootstraps (trace (run es ?s1)) = 1"
    by (simp add: bringup_once_def)
  with counts memo show ?thesis by simp
qed

theorem initialize_once_witness:
  "reachable fresh \<and>
   fst (initialize (run [CoiSettled, LoadModel, HelpersLoaded] (snd (initialize fresh))))
     = fst (initialize fresh) \<and>
   bootstraps (trace (run [CoiSettled, LoadModel, HelpersLoaded] (snd (initialize fresh)))) = 1"
  using initialize_once [OF reachable_fresh, of "[CoiSettled, LoadModel, HelpersLoaded]"]
        reachable_fresh
  by blast

section \<open>A failed bring-up\<close>

text \<open>
  Claim C3 as stated fails: on the controller whose helper script failed to load, the
  memoized promise is rejected, a further \<open>initialize\<close> returns that promise and leaves
  the state as it is, and replaying the events of a whole successful bring-up changes
  nothing: the bootstrap has still run once and there is no module.
\<close>

theorem failed_initialize_not_retried:
  "promises failedInit ! 0 = Rejected HelpersFailed \<and>
   initialize failedInit = (0, failedInit) \<and>
   run bringUp failedInit = failedInit \<and>
   bootstraps (trace (run bringUp failedInit)) = 1 \<and>
   Module (run bringUp failedInit) = None"
  by (simp add: failedInit_def awaitingHelpers_def conc_defs op_defs bootstraps_def)

text \<open>
  Claim C3, amended. If bring-up fails (the helper script fails to load, or the runtime
  fails to load), the memoized promise is rejected with that error, and it stays so:
  whatever happens afterwards, \<open>initialize\<close> returns this rejected promise and changes
  nothing, no part of bring-up is started again, there is no module and no loaded model.
\<close>

theorem bringup_failure_memoized:
  assumes "reachable s"
    and "initStage s = AwaitHelpers \<and> ev = HelpersError \<and> e = HelpersFailed \<or>
         initStage s = AwaitWasm \<and> ev = WasmError e"
  shows "\<exists>p. initPromise s = Some p \<and>
           promises (step ev s) ! p = Rejected e \<and>
           (\<forall>es. promises (run es (step ev s)) ! p = Rejected e \<and>
                 initialize (run es (step ev s)) = (p, run es (step ev s)) \<and>
                 Module (run es (step ev s)) = None \<and>
                 \<not> modelLoaded (run es (step ev s)) \<and>
                 bootstraps (trace (run es (step ev s))) = bootstraps (trace s) \<and>
                 helperLoads (trace (run es (step ev s))) = helperLoads (trace s) \<and>
                 runtimeLoads (trace (run es (step ev s))) = runtimeLoads (trace s))"
proof -
  from assms(1) have f: "flags_ok s" and i: "init_ok s"
    by (rule reachable_flags_ok, rule reachable_init_ok)
  from assms(2) have st: "initStage s \<noteq> Finished" "initStage s \<noteq> NotStarted"
    by auto
  with f obtain p where p: "initPromise s = Some p"
    by (auto simp: flags_ok_def)
  from i p st have pl: "p < length (promises s)" and pp: "promises s ! p = Pending"
    by (auto simp: init_ok_def)
  from f st have fl: "Module s = None" "\<not> modelLoaded s" "\<not> isRecording s"
    by (auto simp: flags_ok_def)
  have ev: "step ev s = s\<lparr> initStage := Finished,
                           promises := settle p (Rejected e) (promises s) \<rparr>"
    using assms(2) p by (auto simp: initFailed_def)
  have rej: "promises (step ev s) ! p = Rejected e"
    unfolding ev using pl pp by (simp add: settle_same)
  have len: "p < length (promises (step ev s))"
    unfolding ev using pl by simp
  have h: "halted (step ev s)"
    unfolding ev using p fl by (simp add: halted_def)
  have tr: "trace (step ev s) = trace s"
    unfolding ev by simp
  have ip: "initPromise (step ev s) = Some p"
    using p by (rule initPromise_step)
  have "promises (run es (step ev s)) ! p = Rejected e \<and>
        initialize (run es (step ev s)) = (p, run es (step ev s)) \<and>
        Module (run es (step ev s)) = None \<and>
        \<not> modelLoaded (run es (step ev s)) \<and>
        bootstraps (trace (run es (step ev s))) = bootstraps (trace s) \<and>
        helperLoads (trace (run es (step ev s))) = helperLoads (trace s) \<and>
        runtimeLoads (trace (run es (step ev s))) = runtimeLoads (trace s)" for es
  proof -
    from settled_run [OF len, of es] rej
    have a: "promises (run es (step ev s)) ! p = Rejected e" by simp
    from initPromise_run [OF ip, of es]
    have b: "initialize (run es (step ev s)) = (p, run es (step ev s))"
      by (rule initialize_memo)
    from halted_run [OF h, of es] tr a b show ?thesis
      by (simp add: halted_def)
  qed
  with p rej show ?thesis by blast
qed

lemma awaitingHelpers_fields:
  "initStage awaitingHelpers = AwaitHelpers" "initPromise awaitingHelpers = Some 0"
  by (simp_all add: awaitingHelpers_def conc_defs op_defs)

lemma reachable_awaitingHelpers: "reachable awaitingHelpers"
  unfolding awaitingHelpers_def by (rule reachable_run [OF reachable_fresh])

theorem bringup_failure_memoized_witness:
  "reachable awaitingHelpers \<and> initStage awaitingHelpers = AwaitHelpers \<and>
   (\<exists>p. promises (step HelpersError awaitingHelpers) ! p = Rejected HelpersFailed \<and>
         initialize (run bringUp (step HelpersError awaitingHelpers))
           = (p, run bringUp (step HelpersError awaitingHelpers)) \<and>
         Module (run bringUp (step HelpersError awaitingHelpers)) = None)"
proof -
  have a: "initStage awaitingHelpers = AwaitHelpers \<and>
             HelpersError = HelpersError \<and> HelpersFailed = HelpersFailed \<or>
           initStage awaitingHelpers = AwaitWasm \<and> HelpersError = WasmError HelpersFailed"
    using awaitingHelpers_fields(1) by blast
  show ?thesis
    using bringup_failure_memoized [OF reachable_awaitingHelpers a]
          reachable_awaitingHelpers awaitingHelpers_fields(1)
    by blast
qed
section \<open>\<open>destroy\<close>\<close>




section \<open>The engine instance\<close>

lemma create_ok_new: "create_ok (new c dec)"
  by (simp add: create_ok_def new_def creations_def)

lemma create_ok_startRecording:
  assumes "flags_ok s" and "create_ok s"
  shows "create_ok (snd (startRecording h s))"
proof -
  from assms(1) have m: "Module s \<noteq> None \<longrightarrow> initStage s = Finished"
    by (auto simp: flags_ok_def)
  with assms(2) show ?thesis
    by (auto simp: create_ok_def startRecording_def beginCapture_def count_defs_append
                   creations_def split: option.splits)
qed

lemma create_ok_step:
  assumes "flags_ok s" and "create_ok s"
  shows "create_ok (step e s)"
proof (cases e)
  case (StartRecording h)
  with assms show ?thesis
    by (simp add: create_ok_startRecording)
next
  case (RestartFired h)
  have "flags_ok (s\<lparr>restarts := restarts s - 1\<rparr>)"
    using assms(1) by (simp add: flags_ok_def)
  moreover have "create_ok (s\<lparr>restarts := restarts s - 1\<rparr>)"
    using assms(2) by (simp add: create_ok_def)
  ultimately show ?thesis
    using RestartFired assms(2) by (simp add: restartFired_def create_ok_startRecording)
next
  case Initialize
  from assms(1) have "initPromise s = None \<longleftrightarrow> initStage s = NotStarted"
    by (simp add: flags_ok_def)
  with assms(2) show ?thesis
    using Initialize
    by (auto simp: create_ok_def initialize_def count_defs_append creations_def
             split: option.splits)
next
  case LoadModel
  from assms(1) have "initPromise s = None \<longleftrightarrow> initStage s = NotStarted"
    by (simp add: flags_ok_def)
  with assms(2) show ?thesis
    using LoadModel
    by (auto simp: create_ok_def loadModel_def initialize_def Let_def count_defs_append
                   creations_def split: option.splits)
next
  case WasmReady
  from assms(1) have "initStage s \<noteq> Finished \<longrightarrow> Module s = None"
    by (simp add: flags_ok_def)
  with assms(2) show ?thesis
    using WasmReady
    by (auto simp: create_ok_def wasmReady_def count_defs_append creations_def
             split: option.splits)
qed (use assms(2) in \<open>auto simp: create_ok_def coiSettled_def
          helpersLoaded_def initFailed_def initAwaited_def storeFS_def
          cbCancel_def startTranscriptionPolling_def pollTick_def mediaGranted_def
          mediaDenied_def ondataavailable_def readerLoaded_def rendered_def
          recorderStopped_def stopRecording_def stopEffects_def destroy_def Let_def
          count_defs_append creations_def
        split: option.splits outcome.splits sum.splits if_splits\<close>)

lemma reachable_create_ok: "reachable s \<Longrightarrow> create_ok s"
proof (induction rule: reachable.induct)
  case (reach_new c dec)
  show ?case by (rule create_ok_new)
next
  case (reach_step s e)
  from reach_step.hyps have "flags_ok s" by (rule reachable_flags_ok)
  then show ?case using reach_step.IH by (rule create_ok_step)
qed

lemma startRecording_keeps_instance:
  "truthy (instance' s) \<Longrightarrow> instance' (snd (startRecording h s)) = instance' s"
  by (simp add: startRecording_def beginCapture_def split: option.splits)

lemma instance_kept:
  assumes "truthy (instance' s)" and "e \<noteq> Destroy"
  shows "instance' (step e s) = instance' s"
proof (cases e)
  case (StartRecording h)
  with assms(1) show ?thesis by (simp add: startRecording_keeps_instance)
next
  case (RestartFired h)
  with assms(1) show ?thesis
    using startRecording_keeps_instance [of "s\<lparr>restarts := restarts s - 1\<rparr>" h]
    by (simp add: restartFired_def)
qed (use assms(2) in \<open>simp_all add: initialize_def coiSettled_def
          helpersLoaded_def initFailed_def wasmReady_def loadModel_def initAwaited_def
          storeFS_def cbCancel_def startTranscriptionPolling_def pollTick_def
          mediaGranted_def mediaDenied_def ondataavailable_def readerLoaded_def rendered_def
          recorderStopped_def stopRecording_def Let_def
        split: option.splits outcome.splits sum.splits\<close>)

text \<open>
  Claim C5 as stated fails on the moment of creation: on \<open>deniedOnce\<close> the call that
  created the instance has failed (its promise is rejected with the device error), the
  instance is held all the same, and the first \<open>startRecording\<close> that succeeds calls no
  \<open>init\<close>: its effects are the audio context, the status calls, the device request, the
  recorder and the timer.
\<close>

theorem instance_created_by_failed_call:
  "promises deniedOnce ! 2 = Rejected (DeviceError ''denied'') \<and>
   instance' deniedOnce = Some 7 \<and>
   creations (trace deniedOnce) = 1 \<and>
   promises (run [StartRecording 9, MediaGranted 3] deniedOnce) ! 3 = Fulfilled \<and>
   trace (run [StartRecording 9, MediaGranted 3] deniedOnce) =
     trace deniedOnce @
       [NewAudioContext 1
          \<lparr> ctx_sampleRate = 16000, channelCount = 1, echoCancellation = False,
            autoGainControl = True, noiseSuppression = True \<rparr>,
        SetStatus [], OnStatus ''Recording...'', GetUserMedia (Flag True) (Flag False),
        NewMediaRecorder 0, RecorderStart 0 5000, SetInterval 0 100] \<and>
   creations (trace (run [StartRecording 9, MediaGranted 3] deniedOnce)) = 1"
  by (simp add: deniedOnce_def conc_defs op_defs contextOptions_def creations_def)

text \<open>
  Claim C5, amended. In every reachable state at most one engine instance has been created,
  and exactly one if an instance is held. Nothing but \<open>destroy\<close> changes a held instance.
  The instance is created by the first \<open>startRecording\<close> that passes the model and
  recording guards while \<open>init\<close> returns a non-zero handle, whether or not that call
  later gets the capture device; from then on, whatever is called (in particular
  \<open>stopRecording\<close> and \<open>startRecording\<close> again), the number of creations is one.
\<close>

theorem instance_created_once:
  assumes "reachable s"
  shows "creations (trace s) \<le> 1 \<and>
         (truthy (instance' s) \<longrightarrow> creations (trace s) = 1) \<and>
         (e \<noteq> Destroy \<longrightarrow> truthy (instance' s) \<longrightarrow> instance' (step e s) = instance' s) \<and>
         (modelLoaded s \<and> \<not> isRecording s \<and> \<not> truthy (instance' s) \<and> h \<noteq> 0 \<longrightarrow>
            creations (trace s) = 0 \<and>
            instance' (snd (startRecording h s)) = Some h \<and>
            (\<forall>es. creations (trace (run es (snd (startRecording h s)))) = 1))"
proof -
  from assms have c: "create_ok s" and f: "flags_ok s"
    by (rule reachable_create_ok, rule reachable_flags_ok)
  from c have a: "creations (trace s) \<le> 1 \<and> (truthy (instance' s) \<longrightarrow> creations (trace s) = 1)"
    by (auto simp: create_ok_def)
  have b: "e \<noteq> Destroy \<longrightarrow> truthy (instance' s) \<longrightarrow> instance' (step e s) = instance' s"
    by (simp add: instance_kept)
  have d: "modelLoaded s \<and> \<not> isRecording s \<and> \<not> truthy (instance' s) \<and> h \<noteq> 0 \<longrightarrow>
            creations (trace s) = 0 \<and>
            instance' (snd (startRecording h s)) = Some h \<and>
            (\<forall>es. creations (trace (run es (snd (startRecording h s)))) = 1)"
  proof (intro impI)
    assume g: "modelLoaded s \<and> \<not> isRecording s \<and> \<not> truthy (instance' s) \<and> h \<noteq> 0"
    with f obtain m where m: "Module s = Some m"
      by (auto simp: flags_ok_def)
    from c g m have z: "creations (trace s) = 0"
      by (auto simp: create_ok_def)
    from g m have i: "instance' (snd (startRecording h s)) = Some h"
      by (simp add: startRecording_def beginCapture_def)
    have "creations (trace (run es (snd (startRecording h s)))) = 1" for es
    proof -
      let ?t = "run es (snd (startRecording h s))"
      have "reachable (step (StartRecording h) s)"
        using assms by (rule reachable.reach_step)
      then have r: "reachable ?t"
        by (simp add: reachable_run)
      from g i have "truthy (instance' (snd (startRecording h s)))"
        by simp
      then have k: "truthy (instance' (snd (startRecording h s))) \<or>
                    Module (snd (startRecording h s)) = None" ..
      have "creations (trace (snd (startRecording h s))) = 1"
        using g m z by (simp add: startRecording_def beginCapture_def count_defs_append)
                       (simp add: creations_def)
      moreover have "creations (trace t) \<le> creations (trace (run es t))" for t :: "'a system"
      proof (induction es arbitrary: t)
        case Nil
        show ?case by simp
      next
        case (Cons e es)
        have "creations (trace t) \<le> creations (trace (step e t))"
          by (cases e)
             (simp_all add: op_defs stopEffects_def Let_def count_defs_append
                       split: option.splits outcome.splits sum.splits)
        with Cons.IH [of "step e t"] show ?case by simp
      qed
      moreover from r have "create_ok ?t" by (rule reachable_create_ok)
      then have "creations (trace ?t) \<le> 1" by (auto simp: create_ok_def)
      ultimately show ?thesis by (metis le_antisym le_trans)
    qed
    with z i show "creations (trace s) = 0 \<and>
            instance' (snd (startRecording h s)) = Some h \<and>
            (\<forall>es. creations (trace (run es (snd (startRecording h s)))) = 1)"
      by blast
  qed
  from a b d show ?thesis by blast
qed

theorem instance_created_once_witness:
  "reachable ready \<and> modelLoaded ready \<and> \<not> isRecording ready \<and> \<not> truthy (instance' ready) \<and>
   instance' (snd (startRecording 7 ready)) = Some 7 \<and>
   creations (trace (run [MediaGranted 2, StopRecording, StartRecording 9, MediaGranted 3]
                       (snd (startRecording 7 ready)))) = 1"
proof -
  have a: "modelLoaded ready \<and> \<not> isRecording ready \<and> \<not> truthy (instance' ready) \<and> (7::nat) \<noteq> 0"
    by (simp add: ready_fields)
  show ?thesis
    using instance_created_once [OF reachable_ready, of Initialize 7] reachable_ready a
    by blast
qed
section \<open>The buffer fed to the engine\<close>

lemma feeds_append: "feeds (xs @ ys) = feeds xs @ feeds ys"
  by (simp add: feeds_def)

lemma segment_effect:
  assumes "flags_ok s" and "r < length (recorders s)" and "audioContext s \<noteq> None"
    and "instance' s = Some h" and "h \<noteq> 0"
  shows "segment r c s =
           s\<lparr> recorders := (recorders s)[r := recorders s ! r @ [c]],
              jobs := jobs s @ [\<lparr> blob = concat (recorders s ! r @ [c]), stage = Completed \<rparr>],
              audio := Some (decodeAudio s (concat (recorders s ! r @ [c]))),
              trace := trace s @ [SetAudio h (decodeAudio s (concat (recorders s ! r @ [c])))] \<rparr>"
proof -
  from assms(1,4,5) obtain m where m: "Module s = Some m" and a0: "audio0 s = None"
    by (auto simp: flags_ok_def)
  from assms(3) obtain c0 where c0: "audioContext s = Some c0"
    by auto
  show ?thesis
    using assms(2,4,5) m a0 c0
    by (simp add: segment_def ondataavailable_def readerLoaded_def rendered_def
                  audioAll_def Let_def)
qed

lemma reachable_segment: "reachable s \<Longrightarrow> reachable (segment r c s)"
  by (simp only: segment_def reachable_run)

lemma segments_feeds:
  assumes "reachable s" and "r < length (recorders s)" and "audioContext s \<noteq> None"
    and "instance' s = Some h" and "h \<noteq> 0"
  shows "feeds (trace (segments r cs s)) =
           feeds (trace s) @
           map (\<lambda>k. decodeAudio s (concat (recorders s ! r @ take (Suc k) cs))) [0..<length cs]"
  using assms
proof (induction cs arbitrary: s)
  case Nil
  show ?case by simp
next
  case (Cons c cs)
  let ?t = "segment r c s"
  from Cons.prems(1) have f: "flags_ok s" by (rule reachable_flags_ok)
  note e = segment_effect [OF f Cons.prems(2,3,4,5), of c]
  have r: "reachable ?t"
    using Cons.prems(1) by (rule reachable_segment)
  have p: "r < length (recorders ?t)" "audioContext ?t \<noteq> None" "instance' ?t = Some h"
    unfolding e using Cons.prems(2,3,4) by simp_all
  have d: "decodeAudio ?t = decodeAudio s" "recorders ?t ! r = recorders s ! r @ [c]"
    "feeds (trace ?t) =
       feeds (trace s) @ [decodeAudio s (concat (recorders s ! r @ [c]))]"
    unfolding e using Cons.prems(2) by (simp_all add: feeds_append) (simp add: feeds_def)
  from Cons.IH [OF r p Cons.prems(5)] d
  show ?case
    by (simp add: map_upt_Suc del: upt_Suc)
qed

lemma recording_feeds: "feeds (trace recording) = []" "decodeAudio recording = dec0"
  by (simp_all add: conc_defs op_defs feeds_def)

lemma decodeAudio_step: "decodeAudio (step e s) = decodeAudio s"
  by (cases e)
     (simp_all add: op_defs Let_def split: option.splits outcome.splits sum.splits)

lemma decodeAudio_run: "decodeAudio (run es s) = decodeAudio s"
  by (induction es arbitrary: s) (simp_all add: decodeAudio_step)

lemma blob_step:
  "j < length (jobs s) \<Longrightarrow>
   j < length (jobs (step e s)) \<and> blob (jobs (step e s) ! j) = blob (jobs s ! j)"
  by (cases e)
     (simp_all add: op_defs Let_def nth_append nth_list_update
               split: option.splits outcome.splits sum.splits)

lemma blob_run:
  "j < length (jobs s) \<Longrightarrow>
   j < length (jobs (run es s)) \<and> blob (jobs (run es s) ! j) = blob (jobs s ! j)"
proof (induction es arbitrary: s)
  case Nil
  then show ?case by simp
next
  case (Cons e es)
  from blob_step [OF Cons.prems, of e] Cons.IH [of "step e s"]
  show ?case by simp
qed

lemma chunks_step:
  "r < length (recorders s) \<Longrightarrow>
   r < length (recorders (step e s)) \<and>
   recorders (step e s) ! r = recorders s ! r @ delivered r [e]"
  by (cases e)
     (simp_all add: op_defs Let_def nth_append nth_list_update
               split: option.splits outcome.splits sum.splits)

lemma delivered_Cons: "delivered r (e # es) = delivered r [e] @ delivered r es"
  by (cases e) simp_all

lemma chunks_run:
  "r < length (recorders s) \<Longrightarrow>
   r < length (recorders (run es s)) \<and>
   recorders (run es s) ! r = recorders s ! r @ delivered r es"
proof (induction es arbitrary: s)
  case Nil
  then show ?case by simp
next
  case (Cons e es)
  from chunks_step [OF Cons.prems, of e] Cons.IH [of "step e s"]
  show ?case by (simp add: delivered_Cons [of r e es])
qed

lemma rendered_feeds:
  assumes "flags_ok u" and "j < length (jobs u)" and "stage (jobs u ! j) = Decoding"
    and "instance' u = Some h" and "h \<noteq> 0"
  shows "feeds (trace (rendered j u)) =
           feeds (trace u) @ [decodeAudio u (blob (jobs u ! j))]"
proof -
  from assms(1,4,5) obtain m where "Module u = Some m" and "audio0 u = None"
    by (auto simp: flags_ok_def)
  with assms(2-5) show ?thesis
    by (simp add: rendered_def audioAll_def Let_def feeds_append) (simp add: feeds_def)
qed

text \<open>
  Claim C1. Let recorder \<open>r\<close> exist in a reachable state \<open>s\<close>. Whatever happens
  afterwards, its chunks accumulate in the order of their delivery. When a chunk \<open>c\<close> is
  delivered after the events \<open>es\<close>, and the decoding of its blob completes after any
  further events \<open>es'\<close> (other segments and their decodings among them, in any order)
  while an instance is held, then the buffer fed to the engine for this segment is the
  decoding of the cumulative raw buffer: all chunks of \<open>r\<close> up to and including
  \<open>c\<close>. Its length is the decoded length of that cumulative buffer, not a sum over the
  earlier decodings. With the segments processed one after the other, the feeds are the
  decodings of the first, the first two, ... chunks, in this order.
\<close>

theorem feed_is_cumulative_decode:
  assumes "reachable s" and "r < length (recorders s)"
  shows "recorders (run es s) ! r = recorders s ! r @ delivered r es \<and>
         (stage (jobs (run es' (ondataavailable r c (run es s))) ! length (jobs (run es s)))
            = Decoding \<longrightarrow>
          instance' (run es' (ondataavailable r c (run es s))) = Some h \<longrightarrow> h \<noteq> 0 \<longrightarrow>
            feeds (trace (rendered (length (jobs (run es s)))
                            (run es' (ondataavailable r c (run es s))))) =
              feeds (trace (run es' (ondataavailable r c (run es s)))) @
                [decodeAudio s (concat (recorders s ! r @ delivered r es @ [c]))] \<and>
            length (last (feeds (trace (rendered (length (jobs (run es s)))
                            (run es' (ondataavailable r c (run es s))))))) =
              length (decodeAudio s (concat (recorders s ! r @ delivered r es @ [c])))) \<and>
         (audioContext s \<noteq> None \<longrightarrow> instance' s = Some h \<longrightarrow> h \<noteq> 0 \<longrightarrow>
            feeds (trace (segments r cs s)) =
              feeds (trace s) @
              map (\<lambda>k. decodeAudio s (concat (recorders s ! r @ take (Suc k) cs)))
                  [0..<length cs])"
proof -
  let ?t = "run es s"
  let ?j = "length (jobs ?t)"
  let ?t1 = "ondataavailable r c ?t"
  let ?u = "run es' ?t1"
  from chunks_run [OF assms(2), of es]
  have rl: "r < length (recorders ?t)"
    and ch: "recorders ?t ! r = recorders s ! r @ delivered r es"
    by simp_all
  have b1: "?j < length (jobs ?t1)" "blob (jobs ?t1 ! ?j) = concat (recorders ?t ! r @ [c])"
    using rl by (simp_all add: ondataavailable_def)
  from blob_run [OF b1(1), of es'] b1(2)
  have bu: "?j < length (jobs ?u)" "blob (jobs ?u ! ?j) = concat (recorders ?t ! r @ [c])"
    by simp_all
  have du: "decodeAudio ?u = decodeAudio s"
    by (simp add: decodeAudio_run ondataavailable_def)
  have "reachable ?t" using assms(1) by (rule reachable_run)
  then have "reachable (step (DataAvailable r c) ?t)" by (rule reachable.reach_step)
  then have "reachable ?u" by (simp add: reachable_run)
  then have fu: "flags_ok ?u" by (rule reachable_flags_ok)
  have job: "stage (jobs ?u ! ?j) = Decoding \<longrightarrow> instance' ?u = Some h \<longrightarrow> h \<noteq> 0 \<longrightarrow>
      feeds (trace (rendered ?j ?u)) =
        feeds (trace ?u) @ [decodeAudio s (concat (recorders s ! r @ delivered r es @ [c]))] \<and>
      length (last (feeds (trace (rendered ?j ?u)))) =
        length (decodeAudio s (concat (recorders s ! r @ delivered r es @ [c])))"
  proof (intro impI)
    assume a: "stage (jobs ?u ! ?j) = Decoding" "instance' ?u = Some h" "h \<noteq> 0"
    from rendered_feeds [OF fu bu(1) a]
    have "feeds (trace (rendered ?j ?u)) =
        feeds (trace ?u) @ [decodeAudio s (concat (recorders s ! r @ delivered r es @ [c]))]"
      by (simp add: bu(2) du ch)
    then show "feeds (trace (rendered ?j ?u)) =
        feeds (trace ?u) @ [decodeAudio s (concat (recorders s ! r @ delivered r es @ [c]))] \<and>
      length (last (feeds (trace (rendered ?j ?u)))) =
        length (decodeAudio s (concat (recorders s ! r @ delivered r es @ [c])))"
      by simp
  qed
  have sq: "audioContext s \<noteq> None \<longrightarrow> instance' s = Some h \<longrightarrow> h \<noteq> 0 \<longrightarrow>
            feeds (trace (segments r cs s)) =
              feeds (trace s) @
              map (\<lambda>k. decodeAudio s (concat (recorders s ! r @ take (Suc k) cs)))
                  [0..<length cs]"
    using segments_feeds [OF assms] by blast
  from ch job sq show ?thesis by blast
qed

lemma overlapping_fields:
  "stage (jobs (run [ReaderLoaded 2]
       (ondataavailable 0 chunkB (run [DataAvailable 0 chunkA, DataAvailable 0 chunkB] recording)))
     ! length (jobs (run [DataAvailable 0 chunkA, DataAvailable 0 chunkB] recording))) = Decoding"
  "instance' (run [ReaderLoaded 2]
       (ondataavailable 0 chunkB (run [DataAvailable 0 chunkA, DataAvailable 0 chunkB] recording)))
     = Some 7"
  by (simp_all add: conc_defs op_defs)

theorem feed_is_cumulative_decode_witness:
  "reachable recording \<and> 0 < length (recorders recording) \<and>
   map length
     (feeds (trace (rendered (length (jobs (run [DataAvailable 0 chunkA, DataAvailable 0 chunkB] recording)))
        (run [ReaderLoaded 2]
          (ondataavailable 0 chunkB
             (run [DataAvailable 0 chunkA, DataAvailable 0 chunkB] recording))))))
     = [2000]"
proof -
  let ?es = "[DataAvailable 0 chunkA, DataAvailable 0 chunkB]"
  let ?u = "run [ReaderLoaded 2] (ondataavailable 0 chunkB (run ?es recording))"
  have a: "0 < length (recorders recording)"
    by (simp add: recording_fields)
  have n: "(7::nat) \<noteq> 0" by simp
  from feed_is_cumulative_decode [OF reachable_recording a, of ?es "[ReaderLoaded 2]" chunkB 7]
       overlapping_fields n
  have e: "feeds (trace (rendered (length (jobs (run ?es recording))) ?u)) =
             feeds (trace ?u) @
             [decodeAudio recording
                (concat (recorders recording ! 0 @ delivered 0 ?es @ [chunkB]))]"
    by blast
  have f: "feeds (trace ?u) = []"
    by (simp add: conc_defs op_defs feeds_def)
  have "map length (feeds (trace (rendered (length (jobs (run ?es recording))) ?u))) = [2000]"
    unfolding e f
    by (simp add: recording_feeds recording_fields dec0_def chunkA_def chunkB_def)
  with a reachable_recording show ?thesis by blast
qed
section \<open>A rejected media-device request\<close>




















end
